theory Spec2Isabelle
  imports Main
begin

section \<open>Strings of the source language\<close>

text \<open>
  The program is \<^verbatim>\<open>src/ELIZA/main.py\<close>. A Python \<^verbatim>\<open>str\<close> is a sequence of code
  points; a \<^typ>\<open>char\<close> here stands for one code point below 256 (ASCII and the
  Latin-1 block), and \<^typ>\<open>string\<close> for a \<^verbatim>\<open>str\<close> made of such code points.
  Every statement below is about these strings.
\<close>

text \<open>
  \<^verbatim>\<open>str.lower()\<close>, code point by code point: the letters A..Z (65..90) and the
  upper-case letters of Latin-1 (192..222 without the multiplication sign 215) move
  up by 32, every other code point below 256 is kept.
\<close>

definition lower_char :: "char \<Rightarrow> char" where
  "lower_char c =
     (let n = (of_char c :: nat) in
      if (65 \<le> n \<and> n \<le> 90) \<or> (192 \<le> n \<and> n \<le> 222 \<and> n \<noteq> 215)
      then char_of (n + 32) else c)"

definition lower :: "string \<Rightarrow> string" where
  "lower s = map lower_char s"

text \<open>
  \<^verbatim>\<open>str.isspace()\<close> on one code point, which is what \<^verbatim>\<open>str.split()\<close> without
  arguments separates on: TAB, LF, VT, FF, CR (9..13), the separators FS, GS, RS, US
  (28..31), the space (32), NEL (133) and the no-break space (160).
\<close>

definition isspace :: "char \<Rightarrow> bool" where
  "isspace c =
     (let n = (of_char c :: nat) in
      (9 \<le> n \<and> n \<le> 13) \<or> (28 \<le> n \<and> n \<le> 32) \<or> n = 133 \<or> n = 160)"

text \<open>
  \<^verbatim>\<open>str.split()\<close> without arguments: skip the white space, stop at the end of the
  string, otherwise cut the run of non-space code points off as one word, and go on
  behind it. No word is empty.
\<close>

function split :: "string \<Rightarrow> string list" where
  "split s =
     (let t = dropWhile isspace s in
      if t = [] then []
      else takeWhile (\<lambda>c. \<not> isspace c) t # split (dropWhile (\<lambda>c. \<not> isspace c) t))"
  by pat_completeness auto
termination
proof (relation "measure length")
  show "wf (measure length)" by simp
next
  fix s t :: string
  assume t: "t = dropWhile isspace s" and ne: "t \<noteq> []"
  from ne obtain c cs where tc: "t = c # cs" by (cases t) auto
  with t have "\<not> isspace c" by (metis hd_dropWhile list.sel(1) ne)
  then have "length (dropWhile (\<lambda>c. \<not> isspace c) t) \<le> length cs"
    using tc by (simp add: length_dropWhile_le)
  also have "length cs < length t" using tc by simp
  also have "length t \<le> length s" using t by (simp add: length_dropWhile_le)
  finally show "(dropWhile (\<lambda>c. \<not> isspace c) t, s) \<in> measure length" by simp
qed

text \<open>\<^verbatim>\<open>" ".join(words)\<close>.\<close>

fun join :: "string list \<Rightarrow> string" where
  "join [] = []"
| "join [w] = w"
| "join (w # v # ws) = w @ '' '' @ join (v # ws)"

section \<open>The tables\<close>

text \<open>
  The dictionary \<^verbatim>\<open>responses\<close> is iterated in insertion order by the loop of
  \<^verbatim>\<open>eliza_chat\<close>, so it is the list of its items in the order of the source.
\<close>

definition responses :: "(string \<times> string list) list" where
  "responses =
    [(''i feel (.*)'', [''Why do you feel {}?'', ''How long have you felt {}?'',
                        ''Do you think feeling {} is normal?'']),
     (''why do you (.*)'', [''Why does it concern you that I {}?'', ''What makes you ask that?'']),
     (''i'' @ [CHR 0x27] @ ''m (.*)'', [''How does being {} make you feel?'', ''Do you enjoy being {}?'']),
     (''i (.*) you'', [''Why do you {} me?'', ''What makes you think you {} me?'']),
     (''because (.*)'', [''Is that the real reason?'', ''What other reasons might there be?'',
                         ''Does that reason explain everything?'']),
     (''yes'', [''You seem quite sure.'', ''I understand.'']),
     (''no'', [''Why not?'', ''Can you explain why?'']),
     (''you are (.*)'', [''What makes you think I am {}?'',
                         ''Does it please you to think that I am {}?'']),
     (''i want (.*)'', [''Why do you want {}?'', ''What would it mean if you got {}?'']),
     (''can you (.*)'', [''Why do you ask?'', ''Perhaps you believe I can {}?''])]"

text \<open>
  The dictionary \<^verbatim>\<open>reflections\<close>, read only through \<^verbatim>\<open>reflections.get\<close>; no key
  occurs twice, so the first entry found for a key is its entry.
\<close>

definition reflections :: "(string \<times> string) list" where
  "reflections =
    [(''i am'', ''you are''),
     (''i'' @ [CHR 0x27] @ ''m'', ''you are''),
     (''i have'', ''you have''),
     (''i was'', ''you were''),
     (''i'', ''you''),
     (''me'', ''you''),
     (''my'', ''your''),
     (''you are'', ''I am''),
     (''you have'', ''I have''),
     (''you were'', ''I was'')]"

definition default_responses :: "string list" where
  "default_responses =
    [''Tell me more.'',
     ''Why do you say that?'',
     ''How does that make you feel?'',
     ''Can you elaborate?'',
     ''That is very interesting.'']"

section \<open>reflect\<close>

text \<open>\<^verbatim>\<open>reflections.get(word, word)\<close>.\<close>

definition reflections_get :: "string \<Rightarrow> string" where
  "reflections_get word = (case map_of reflections word of Some v \<Rightarrow> v | None \<Rightarrow> word)"

text \<open>
  \<^verbatim>\<open>
  def reflect(sentence):
      words = sentence.lower().split()
      return " ".join(reflections.get(word, word) for word in words)
  \<close>
\<close>

definition reflect :: "string \<Rightarrow> string" where
  "reflect sentence = (let words = split (lower sentence) in join (map reflections_get words))"

section \<open>Matching a pattern\<close>

text \<open>
  \<^verbatim>\<open>re.match(pattern, input_text, re.IGNORECASE)\<close> for the patterns of the table.
  They are written with two constructs only: a code point that stands for itself, and
  the capturing group \<^verbatim>\<open>(.*)\<close>. \<open>parse\<close> reads a pattern of that form.
\<close>

datatype node = Literal char | Group_any

fun parse :: "string \<Rightarrow> node list" where
  "parse (a # b # c # d # r) =
     (if a = CHR ''('' \<and> b = CHR ''.'' \<and> c = CHR ''*'' \<and> d = CHR '')''
      then Group_any # parse r
      else Literal a # parse (b # c # d # r))"
| "parse (a # r) = Literal a # parse r"
| "parse [] = []"

text \<open>
  The match starts at position 0 and need not reach the end of the text. With
  \<^verbatim>\<open>re.IGNORECASE\<close> a literal matches a code point whose lower case is the lower
  case of the literal. The dot matches every code point but the line feed (the flag
  \<^verbatim>\<open>re.DOTALL\<close> is not set). The star is greedy: the group first takes one more
  code point, and gives it back when the rest of the pattern fails behind it. The
  result is \<^verbatim>\<open>match.groups()\<close>, or \<open>None\<close> where \<^verbatim>\<open>re.match\<close> returns \<^verbatim>\<open>None\<close>.
\<close>

fun match_nodes :: "node list \<Rightarrow> string \<Rightarrow> string list option" where
  "match_nodes [] s = Some []"
| "match_nodes (Literal c # ns) [] = None"
| "match_nodes (Literal c # ns) (x # xs) =
     (if lower_char x = lower_char c then match_nodes ns xs else None)"
| "match_nodes (Group_any # ns) [] =
     (case match_nodes ns [] of Some gs \<Rightarrow> Some ([] # gs) | None \<Rightarrow> None)"
| "match_nodes (Group_any # ns) (x # xs) =
     (case (if x = CHR 0x0A then None else match_nodes (Group_any # ns) xs) of
        Some (g # gs) \<Rightarrow> Some ((x # g) # gs)
      | _ \<Rightarrow> (case match_nodes ns (x # xs) of Some gs \<Rightarrow> Some ([] # gs) | None \<Rightarrow> None))"

definition re_match :: "string \<Rightarrow> string \<Rightarrow> string list option" where
  "re_match pattern input_text = match_nodes (parse pattern) input_text"

section \<open>Choosing and filling a template\<close>

datatype error = IndexError | ValueError | EOFError

text \<open>
  \<^verbatim>\<open>random.choice(seq)\<close> raises \<^verbatim>\<open>IndexError\<close> on an empty sequence and returns
  \<^verbatim>\<open>seq[i]\<close> otherwise, for an index \<open>i\<close> below the length drawn from the random
  source. The draw is the parameter \<open>r\<close>, reduced below the length; every index is
  the result of some draw.
\<close>

definition choice :: "'a list \<Rightarrow> nat \<Rightarrow> error + 'a" where
  "choice seq r = (if seq = [] then Inl IndexError else Inr (seq ! (r mod length seq)))"

text \<open>
  \<^verbatim>\<open>template.format(*args)\<close> for templates whose replacement fields are all the
  automatic field \<^verbatim>\<open>{}\<close>: each field takes the next argument, and \<^verbatim>\<open>IndexError\<close>
  is raised when none is left; arguments left over at the end are ignored. The doubled
  braces stand for one brace, and a single closing brace raises \<^verbatim>\<open>ValueError\<close>. A
  field with a name, an index, a conversion or a format specification is not modelled
  (no template of the tables has one); it is answered with \<^verbatim>\<open>ValueError\<close> here.
\<close>

fun format :: "string \<Rightarrow> string list \<Rightarrow> error + string" where
  "format [] args = Inr []"
| "format [c] args = (if c = CHR ''{'' \<or> c = CHR ''}'' then Inl ValueError else Inr [c])"
| "format (c # d # r) args =
     (if c = CHR ''{'' then
        (if d = CHR ''{'' then
           (case format r args of Inl e \<Rightarrow> Inl e | Inr t \<Rightarrow> Inr (CHR ''{'' # t))
         else if d = CHR ''}'' then
           (case args of
              [] \<Rightarrow> Inl IndexError
            | a # as \<Rightarrow> (case format r as of Inl e \<Rightarrow> Inl e | Inr t \<Rightarrow> Inr (a @ t)))
         else Inl ValueError)
      else if c = CHR ''}'' then
        (if d = CHR ''}'' then
           (case format r args of Inl e \<Rightarrow> Inl e | Inr t \<Rightarrow> Inr (CHR ''}'' # t))
         else Inl ValueError)
      else (case format (d # r) args of Inl e \<Rightarrow> Inl e | Inr t \<Rightarrow> Inr (c # t)))"

section \<open>One turn and the session\<close>

text \<open>
  The \<^verbatim>\<open>for\<close> loop of \<^verbatim>\<open>eliza_chat\<close> over \<^verbatim>\<open>responses.items()\<close>: it stops at the
  first pattern that matches, with the groups of the match and the phrases of that
  pattern.
\<close>

fun first_match :: "(string \<times> string list) list \<Rightarrow> string \<Rightarrow> (string list \<times> string list) option" where
  "first_match [] input_text = None"
| "first_match ((pattern, phrases) # rest) input_text =
     (case re_match pattern input_text of
        Some groups \<Rightarrow> Some (groups, phrases)
      | None \<Rightarrow> first_match rest input_text)"

text \<open>
  The reply of one turn, which the specification calls \<^verbatim>\<open>respond\<close>: lines 54 to 64
  of the source, without the printing.
  \<^verbatim>\<open>
  for pattern, phrases in responses.items():
      match = re.match(pattern, input_text, re.IGNORECASE)
      if match:
          response = random.choice(phrases).format(*[reflect(g) for g in match.groups()])
          ...
          break
  if not matched:
      print("Eliza:", random.choice(default_responses))
  \<close>
  \<open>r\<close> is the draw of the random source in this turn.
\<close>

definition respond :: "nat \<Rightarrow> string \<Rightarrow> error + string" where
  "respond r input_text =
     (case first_match responses input_text of
        Some (groups, phrases) \<Rightarrow>
          (case choice phrases r of
             Inl e \<Rightarrow> Inl e
           | Inr template \<Rightarrow> format template (map reflect groups))
      | None \<Rightarrow> choice default_responses r)"

text \<open>
  The session. What the program writes is a list of events: a line written by
  \<^verbatim>\<open>print\<close>, or the prompt written by \<^verbatim>\<open>input\<close>. The lines that \<^verbatim>\<open>input\<close> will
  return are a list; when it is used up \<^verbatim>\<open>input\<close> raises \<^verbatim>\<open>EOFError\<close>. The
  random source is the sequence \<open>rnd\<close> of its draws, one for each reply, and \<open>k\<close>
  counts the draws made so far.
\<close>

datatype event = Print string | Prompt string

datatype outcome = Returned | Raised error

definition sentinels :: "string list" where
  "sentinels = [''bye'', ''exit'', ''quit'']"

fun chat_loop :: "(nat \<Rightarrow> nat) \<Rightarrow> nat \<Rightarrow> string list \<Rightarrow> event list \<times> outcome" where
  "chat_loop rnd k [] = ([Prompt ''You: ''], Raised EOFError)"
| "chat_loop rnd k (input_text # rest) =
     (if lower input_text \<in> set sentinels
      then ([Prompt ''You: '', Print ''Eliza: Goodbye! It was nice talking to you.''], Returned)
      else (case respond (rnd k) input_text of
              Inl e \<Rightarrow> ([Prompt ''You: ''], Raised e)
            | Inr response \<Rightarrow>
                (let (out, res) = chat_loop rnd (Suc k) rest
                 in (Prompt ''You: '' # Print (''Eliza: '' @ response) # out, res))))"

definition eliza_chat :: "(nat \<Rightarrow> nat) \<Rightarrow> string list \<Rightarrow> event list \<times> outcome" where
  "eliza_chat rnd inputs =
     (let (out, res) = chat_loop rnd 0 inputs
      in (Print (''Eliza: Hello, I'' @ [CHR 0x27] @ ''m Eliza. What'' @ [CHR 0x27] @ ''s on your mind?'') # out, res))"

section \<open>Notions used in the statements\<close>

text \<open>A word: a non-empty string without white space.\<close>

definition word :: "string \<Rightarrow> bool" where
  "word w = (w \<noteq> [] \<and> (\<forall>c \<in> set w. \<not> isspace c))"

text \<open>
  The entries of \<^verbatim>\<open>reflections\<close> whose key is one word, as a lookup that keeps a
  word which is none of these keys.
\<close>

definition single_get :: "string \<Rightarrow> string" where
  "single_get w =
     (if w = ''i'' @ [CHR 0x27] @ ''m'' then ''you are''
      else if w = ''i'' \<or> w = ''me'' then ''you''
      else if w = ''my'' then ''your''
      else w)"

text \<open>
  The number of capturing groups of a pattern (\<^verbatim>\<open>re.compile(pattern).groups\<close>), which is
  the length of \<^verbatim>\<open>match.groups()\<close>.
\<close>

definition groups :: "node list \<Rightarrow> nat" where
  "groups ns = length (filter (\<lambda>n. n = Group_any) ns)"

text \<open>
  The number of replacement fields \<^verbatim>\<open>{}\<close> of a template, read from left to right as
  \<open>format\<close> reads it (a doubled brace is no field).
\<close>

fun placeholders :: "string \<Rightarrow> nat" where
  "placeholders (c # d # r) =
     (if c = CHR ''{'' \<and> d = CHR ''}'' then Suc (placeholders r)
      else if (c = CHR ''{'' \<and> d = CHR ''{'') \<or> (c = CHR ''}'' \<and> d = CHR ''}'') then placeholders r
      else placeholders (d # r))"
| "placeholders r = 0"

declare split.simps [simp del]

section \<open>Lower case, words and joining\<close>

lemma of_char_lower_char:
  "(of_char (lower_char c) :: nat) =
     (let n = of_char c in
      if (65 \<le> n \<and> n \<le> 90) \<or> (192 \<le> n \<and> n \<le> 222 \<and> n \<noteq> 215) then n + 32 else n)"
  by (auto simp: lower_char_def Let_def)

lemma lower_char_idem: "lower_char (lower_char c) = lower_char c"
  unfolding lower_char_def[of "lower_char c"] of_char_lower_char
  by (auto simp: Let_def)

lemma isspace_lower_char: "isspace (lower_char c) = isspace c"
  unfolding isspace_def of_char_lower_char by (auto simp: Let_def)

lemma lower_idem: "lower (lower s) = lower s"
  by (simp add: lower_def lower_char_idem)

lemma lower_append: "lower (s @ t) = lower s @ lower t"
  by (simp add: lower_def)

lemma lower_Nil [simp]: "lower [] = []"
  by (simp add: lower_def)

lemma lower_eq_Nil [simp]: "(lower s = []) = (s = [])"
  by (simp add: lower_def)

lemma isspace_space: "isspace CHR '' ''"
  by (simp add: isspace_def)

lemma lower_space: "lower '' '' = '' ''"
  by (simp add: lower_def lower_char_def)

lemma split_Nil: "split [] = []"
  by (simp add: split.simps)

lemma split_dropWhile: "split (dropWhile isspace s) = split s"
  by (subst (1 2) split.simps) (simp add: dropWhile_idem)

lemma split_space_Cons: "isspace c \<Longrightarrow> split (c # s) = split s"
  by (subst (1 2) split.simps) simp

lemma split_words: "w \<in> set (split s) \<Longrightarrow> word w"
proof (induction s rule: split.induct)
  case (1 s)
  let ?t = "dropWhile isspace s"
  let ?P = "\<lambda>c. \<not> isspace c"
  show ?case
  proof (cases "?t = []")
    case True
    then have "split s = []" by (subst split.simps) simp
    with "1.prems" show ?thesis by simp
  next
    case False
    then have hd: "\<not> isspace (hd ?t)" by (rule hd_dropWhile)
    have eq: "split s = takeWhile ?P ?t # split (dropWhile ?P ?t)"
      using False by (subst split.simps) (simp add: Let_def)
    from "1.prems" eq
    consider "w = takeWhile ?P ?t" | "w \<in> set (split (dropWhile ?P ?t))"
      by auto
    then show ?thesis
    proof cases
      case 1
      from False hd have ne: "takeWhile ?P ?t \<noteq> []"
        by (simp add: takeWhile_eq_Nil_iff)
      have ns: "\<forall>c \<in> set (takeWhile ?P ?t). \<not> isspace c"
        by (metis set_takeWhileD)
      from ne ns show ?thesis unfolding word_def 1 by (rule conjI)
    next
      case 2
      with "1.IH"[OF refl False] show ?thesis .
    qed
  qed
qed

lemma split_append_space:
  "isspace c \<Longrightarrow> split (a @ c # b) = split a @ split b"
proof (induction a rule: split.induct)
  case (1 a)
  let ?t = "dropWhile isspace a"
  let ?P = "\<lambda>c. \<not> isspace c"
  show ?case
  proof (cases "?t = []")
    case True
    then have all: "\<forall>x \<in> set a. isspace x" by (simp add: dropWhile_eq_Nil_conv)
    then have "dropWhile isspace (a @ c # b) = dropWhile isspace b"
      using "1.prems" by (simp add: dropWhile_append2)
    then have "split (dropWhile isspace (a @ c # b)) = split (dropWhile isspace b)"
      by (rule arg_cong)
    then have "split (a @ c # b) = split b"
      by (simp only: split_dropWhile)
    moreover have "split a = []" using True by (subst split.simps) simp
    ultimately show ?thesis by simp
  next
    case False
    from False obtain x where x: "x \<in> set a" "\<not> isspace x"
      by (auto simp: dropWhile_eq_Nil_conv)
    then have d: "dropWhile isspace (a @ c # b) = ?t @ c # b"
      by (simp add: dropWhile_append1)
    have tk: "takeWhile ?P (?t @ c # b) = takeWhile ?P ?t"
    proof (cases "\<forall>x \<in> set ?t. ?P x")
      case True
      then have e: "takeWhile ?P ?t = ?t" by (simp only: takeWhile_eq_all_conv)
      have "takeWhile ?P (?t @ c # b) = ?t @ takeWhile ?P (c # b)"
        unfolding takeWhile_append using True by (rule if_P)
      also have "\<dots> = ?t" using "1.prems" by simp
      finally show ?thesis unfolding e .
    next
      case False
      then show ?thesis unfolding takeWhile_append by (rule if_not_P)
    qed
    have dr: "dropWhile ?P (?t @ c # b) = dropWhile ?P ?t @ c # b"
    proof (cases "\<forall>x \<in> set ?t. ?P x")
      case True
      then have e: "dropWhile ?P ?t = []" by (simp only: dropWhile_eq_Nil_conv)
      have "dropWhile ?P (?t @ c # b) = dropWhile ?P (c # b)"
        unfolding dropWhile_append using True by (rule if_P)
      also have "\<dots> = c # b" using "1.prems" by simp
      finally show ?thesis unfolding e by simp
    next
      case False
      then show ?thesis unfolding dropWhile_append by (rule if_not_P)
    qed
    have sa: "split a = takeWhile ?P ?t # split (dropWhile ?P ?t)"
      using False by (subst split.simps) (simp add: Let_def)
    have ne: "?t @ c # b \<noteq> []" by simp
    have "split (a @ c # b) = takeWhile ?P ?t # split (dropWhile ?P ?t @ c # b)"
      by (subst split.simps) (simp only: d tk dr Let_def ne if_False)
    also have "split (dropWhile ?P ?t @ c # b) = split (dropWhile ?P ?t) @ split b"
      using "1.IH"[OF refl False "1.prems"] .
    finally show ?thesis by (simp add: sa)
  qed
qed

lemma split_word: "word w \<Longrightarrow> split w = [w]"
proof -
  assume w: "word w"
  then have ne: "w \<noteq> []" and ns: "\<forall>c \<in> set w. \<not> isspace c" by (auto simp: word_def)
  then have d: "dropWhile isspace w = w" by (cases w) auto
  have t: "takeWhile (\<lambda>c. \<not> isspace c) w = w" using ns by simp
  have r: "dropWhile (\<lambda>c. \<not> isspace c) w = []" using ns by simp
  show ?thesis by (subst split.simps) (simp add: d t r ne split_Nil Let_def)
qed

lemma split_join: "split (join vs) = concat (map split vs)"
proof (induction vs rule: join.induct)
  case 1 show ?case by (simp add: split_Nil)
next
  case (2 w) show ?case by simp
next
  case (3 w v ws)
  then show ?case using split_append_space[OF isspace_space, of w "join (v # ws)"] by simp
qed

lemma lower_join: "lower (join vs) = join (map lower vs)"
  by (induction vs rule: join.induct) (simp_all add: lower_def lower_char_def)

lemma split_lower: "split (lower s) = map lower (split s)"
proof (induction s rule: split.induct)
  case (1 s)
  let ?t = "dropWhile isspace s"
  let ?P = "\<lambda>c. \<not> isspace c"
  have d: "dropWhile isspace (lower s) = lower ?t"
    by (simp add: lower_def dropWhile_map comp_def isspace_lower_char)
  have tk: "takeWhile ?P (lower ?t) = lower (takeWhile ?P ?t)"
    by (simp add: lower_def takeWhile_map comp_def isspace_lower_char)
  have dr: "dropWhile ?P (lower ?t) = lower (dropWhile ?P ?t)"
    by (simp add: lower_def dropWhile_map comp_def isspace_lower_char)
  have unf: "split (lower s) =
      (if lower ?t = [] then []
       else takeWhile ?P (lower ?t) # split (dropWhile ?P (lower ?t)))"
    by (subst split.simps) (simp only: Let_def d)
  show ?case
  proof (cases "?t = []")
    case True
    then have "lower ?t = []" by (simp only: lower_Nil)
    then have "split (lower s) = []" unfolding unf by (rule if_P)
    moreover have "split s = []" using True by (subst split.simps) simp
    ultimately show ?thesis by simp
  next
    case False
    then have ne: "lower ?t \<noteq> []" by (simp only: lower_eq_Nil not_False_eq_True)
    have sa: "split s = takeWhile ?P ?t # split (dropWhile ?P ?t)"
      using False by (subst split.simps) (simp add: Let_def)
    have "split (lower s) = takeWhile ?P (lower ?t) # split (dropWhile ?P (lower ?t))"
      unfolding unf using ne by (rule if_not_P)
    also have "\<dots> = lower (takeWhile ?P ?t) # split (lower (dropWhile ?P ?t))"
      by (simp only: tk dr)
    also have "\<dots> = lower (takeWhile ?P ?t) # map lower (split (dropWhile ?P ?t))"
      by (simp only: "1.IH"[OF refl False])
    also have "\<dots> = map lower (split s)"
      by (simp only: sa list.map)
    finally show ?thesis .
  qed
qed

lemma join_append:
  "xs \<noteq> [] \<Longrightarrow> ys \<noteq> [] \<Longrightarrow> join (xs @ ys) = join xs @ '' '' @ join ys"
proof (induction xs rule: join.induct)
  case 1 then show ?case by simp
next
  case (2 w) then show ?case by (cases ys) auto
next
  case (3 w v ws) then show ?case by simp
qed

lemma join_concat:
  "\<forall>l \<in> set ls. l \<noteq> [] \<Longrightarrow> join (concat ls) = join (map join ls)"
proof (induction ls)
  case Nil show ?case by simp
next
  case (Cons l ls)
  show ?case
  proof (cases "ls = []")
    case True then show ?thesis by simp
  next
    case False
    then obtain m ms where ls: "ls = m # ms" by (cases ls) auto
    with Cons.prems have "concat ls \<noteq> []" by auto
    moreover from Cons.prems have "l \<noteq> []" by simp
    ultimately have "join (l @ concat ls) = join l @ '' '' @ join (concat ls)"
      by (rule join_append[rotated])
    with Cons ls show ?thesis by simp
  qed
qed

lemma word_no_space: "word w \<Longrightarrow> CHR '' '' \<notin> set w"
  unfolding word_def using isspace_space by blast

lemma reflections_get_word: "word w \<Longrightarrow> reflections_get w = single_get w"
proof -
  assume "word w"
  then have ns: "CHR '' '' \<notin> set w" by (rule word_no_space)
  have k: "w \<noteq> ''i am''" "w \<noteq> ''i have''" "w \<noteq> ''i was''"
    "w \<noteq> ''you are''" "w \<noteq> ''you have''" "w \<noteq> ''you were''"
    using ns by auto
  show ?thesis
    unfolding reflections_get_def reflections_def single_get_def
    using k by simp
qed

lemma reflect_by_words: "reflect s = join (map single_get (split (lower s)))"
proof -
  have "map reflections_get (split (lower s)) = map single_get (split (lower s))"
    by (rule map_cong[OF refl]) (rule reflections_get_word, rule split_words)
  then show ?thesis unfolding reflect_def Let_def by (rule arg_cong)
qed

lemma split_you_are: "split ''you are'' = [''you'', ''are'']"
  by code_simp

lemma split_you: "split ''you'' = [''you'']"
  by code_simp

lemma split_your: "split ''your'' = [''your'']"
  by code_simp

lemma single_get_fix:
  assumes "word w" "lower w = w"
  shows "split (single_get w) \<noteq> []"
    and "map single_get (split (single_get w)) = split (single_get w)"
    and "join (split (single_get w)) = single_get w"
    and "lower (single_get w) = single_get w"
proof -
  let ?k = "''i'' @ [CHR 0x27] @ ''m''"
  consider (a) "w = ?k"
    | (b) "w \<noteq> ?k" "w = ''i'' \<or> w = ''me''"
    | (c) "w \<noteq> ?k" "\<not> (w = ''i'' \<or> w = ''me'')" "w = ''my''"
    | (d) "w \<noteq> ?k" "\<not> (w = ''i'' \<or> w = ''me'')" "w \<noteq> ''my''"
    by blast
  then have "split (single_get w) \<noteq> [] \<and> map single_get (split (single_get w)) = split (single_get w)
     \<and> join (split (single_get w)) = single_get w \<and> lower (single_get w) = single_get w"
  proof cases
    case a
    then have "single_get w = ''you are''" by (simp add: single_get_def)
    then show ?thesis by (simp add: split_you_are single_get_def lower_def lower_char_def)
  next
    case b
    then have "single_get w = ''you''" by (simp add: single_get_def)
    then show ?thesis by (simp add: split_you single_get_def lower_def lower_char_def)
  next
    case c
    then have "single_get w = ''your''" by (simp add: single_get_def)
    then show ?thesis by (simp add: split_your single_get_def lower_def lower_char_def)
  next
    case d
    then have "single_get w = w" by (simp add: single_get_def)
    then show ?thesis using assms(2) split_word[OF assms(1)] by simp
  qed
  then show "split (single_get w) \<noteq> []"
    and "map single_get (split (single_get w)) = split (single_get w)"
    and "join (split (single_get w)) = single_get w"
    and "lower (single_get w) = single_get w" by blast+
qed

section \<open>Properties of reflect\<close>

lemma reflect_lower_fixed: "lower (reflect s) = reflect s"
proof -
  define T where "T = split (lower s)"
  have w: "word t" if "t \<in> set T" for t using that split_words unfolding T_def by blast
  have l: "lower t = t" if "t \<in> set T" for t
  proof -
    from that obtain u where "t = lower u" unfolding T_def split_lower by auto
    then show ?thesis by (simp add: lower_idem)
  qed
  have r: "reflect s = join (map single_get T)" by (simp add: reflect_by_words T_def)
  have "lower (join (map single_get T)) = join (map (\<lambda>t. lower (single_get t)) T)"
    by (simp add: lower_join comp_def)
  also have "\<dots> = join (map single_get T)"
    by (rule arg_cong[where f = join], rule map_cong[OF refl]) (rule single_get_fix(4)[OF w l])
  finally show ?thesis by (simp only: r)
qed

lemma lower_char_capital:
  "65 \<le> (of_char c :: nat) \<Longrightarrow> (of_char c :: nat) \<le> 90 \<Longrightarrow> lower_char c \<noteq> c"
proof
  assume a: "65 \<le> (of_char c :: nat)" "(of_char c :: nat) \<le> 90" and e: "lower_char c = c"
  from a have "(of_char (lower_char c) :: nat) = of_char c + 32"
    by (simp add: of_char_lower_char)
  with e show False by simp
qed

lemma reflect_no_capitals:
  "filter (\<lambda>c. 65 \<le> (of_char c :: nat) \<and> (of_char c :: nat) \<le> 90) (reflect s) = []"
proof -
  have "map lower_char (reflect s) = map id (reflect s)"
    using reflect_lower_fixed[of s] by (simp add: lower_def)
  then have fx: "lower_char c = c" if "c \<in> set (reflect s)" for c
    using that unfolding map_eq_conv by simp
  show ?thesis
    unfolding filter_empty_conv using fx lower_char_capital by blast
qed


text \<open>
  C6. \<open>reflect\<close> looks single words up: the sentence is put in lower case and split on
  white space, every word that is a key of the table is replaced by its value, every
  other word is kept, and the words are joined with one space. A word has no space in
  it, so only the keys of one word (\<^verbatim>\<open>i'm\<close>, \<^verbatim>\<open>i\<close>, \<^verbatim>\<open>me\<close>, \<^verbatim>\<open>my\<close>) are ever
  found, and the keys of two words never are: \<open>reflect\<close> of \<^verbatim>\<open>i\<close> is \<^verbatim>\<open>you\<close>, of
  \<^verbatim>\<open>my\<close> is \<^verbatim>\<open>your\<close>, and of \<^verbatim>\<open>i am\<close> is \<^verbatim>\<open>you am\<close>, not \<^verbatim>\<open>you are\<close>; likewise
  \<^verbatim>\<open>i was\<close> gives \<^verbatim>\<open>you was\<close> and \<^verbatim>\<open>you are\<close> stays as it is. The result has no
  capital letter A to Z in it: \<^verbatim>\<open>I Am\<close> gives \<^verbatim>\<open>you am\<close>, \<^verbatim>\<open>MY Dog\<close> gives
  \<^verbatim>\<open>your dog\<close>, \<^verbatim>\<open>BANANA\<close> gives \<^verbatim>\<open>banana\<close>, and runs of spaces become one space.
\<close>

theorem reflect_single_token_lookup:
  "reflect s = join (map single_get (split (lower s)))
   \<and> filter (\<lambda>c. 65 \<le> (of_char c :: nat) \<and> (of_char c :: nat) \<le> 90) (reflect s) = []
   \<and> reflect ''i'' = ''you''
   \<and> reflect ''my'' = ''your''
   \<and> reflect ''i am'' = ''you am''
   \<and> reflect ''i am'' \<noteq> ''you are''
   \<and> reflect ''i was'' = ''you was''
   \<and> reflect ''you are'' = ''you are''
   \<and> reflect ''I Am'' = ''you am''
   \<and> reflect ''MY Dog'' = ''your dog''
   \<and> reflect ''  Tell   ME  more '' = ''tell you more''
   \<and> reflect ''BANANA'' = ''banana''"
proof -
  have e1: "reflect ''i'' = ''you''" by code_simp
  have e2: "reflect ''my'' = ''your''" by code_simp
  have e3: "reflect ''i am'' = ''you am''" by code_simp
  have e4: "reflect ''i am'' \<noteq> ''you are''" unfolding e3 by simp
  have e5: "reflect ''i was'' = ''you was''" by code_simp
  have e6: "reflect ''you are'' = ''you are''" by code_simp
  have e7: "reflect ''I Am'' = ''you am''" by code_simp
  have e8: "reflect ''MY Dog'' = ''your dog''" by code_simp
  have e9: "reflect ''  Tell   ME  more '' = ''tell you more''" by code_simp
  have e10: "reflect ''BANANA'' = ''banana''" by code_simp
  from reflect_by_words reflect_no_capitals e1 e2 e3 e4 e5 e6 e7 e8 e9 e10 show ?thesis by blast
qed

text \<open>
  C10. \<open>reflect\<close> is idempotent: reflecting a reflected sentence changes nothing.
\<close>

theorem reflect_idempotent: "reflect (reflect s) = reflect s"
proof -
  define T where "T = split (lower s)"
  have w: "word t" if "t \<in> set T" for t using that split_words unfolding T_def by blast
  have l: "lower t = t" if "t \<in> set T" for t
  proof -
    from that obtain u where "t = lower u" unfolding T_def split_lower by auto
    then show ?thesis by (simp add: lower_idem)
  qed
  have r: "reflect s = join (map single_get T)" by (simp add: reflect_by_words T_def)
  have "lower (join (map single_get T)) = join (map (\<lambda>t. lower (single_get t)) T)"
    by (simp add: lower_join comp_def)
  also have "\<dots> = join (map single_get T)"
    by (rule arg_cong[where f = join], rule map_cong[OF refl]) (rule single_get_fix(4)[OF w l])
  finally have lo: "lower (reflect s) = reflect s" by (simp only: r)
  have sp: "split (reflect s) = concat (map (\<lambda>t. split (single_get t)) T)"
    by (simp add: r split_join comp_def)
  have "map single_get (concat (map (\<lambda>t. split (single_get t)) T))
      = concat (map (\<lambda>t. map single_get (split (single_get t))) T)"
    by (simp add: map_concat comp_def)
  also have "\<dots> = concat (map (\<lambda>t. split (single_get t)) T)"
    by (rule arg_cong[where f = concat], rule map_cong[OF refl]) (rule single_get_fix(2)[OF w l])
  finally have m: "map single_get (split (reflect s)) = split (reflect s)" by (simp only: sp)
  have ne: "\<forall>l \<in> set (map (\<lambda>t. split (single_get t)) T). l \<noteq> []"
    using single_get_fix(1)[OF w l] by auto
  have "join (split (reflect s)) = join (map join (map (\<lambda>t. split (single_get t)) T))"
    unfolding sp by (rule join_concat[OF ne])
  also have "\<dots> = join (map (\<lambda>t. join (split (single_get t))) T)"
    by (simp add: comp_def)
  also have "\<dots> = join (map single_get T)"
    by (rule arg_cong[where f = join], rule map_cong[OF refl]) (rule single_get_fix(3)[OF w l])
  finally have j: "join (split (reflect s)) = reflect s" by (simp only: r)
  have "reflect (reflect s) = join (map single_get (split (lower (reflect s))))"
    by (rule reflect_by_words)
  also have "\<dots> = reflect s" by (simp only: lo m j)
  finally show ?thesis .
qed

section \<open>Matching, choosing and filling: lemmas\<close>

lemma match_nodes_length: "match_nodes ns s = Some gs \<Longrightarrow> length gs = groups ns"
proof (induction ns s arbitrary: gs rule: match_nodes.induct)
  case (1 s) then show ?case by (simp add: groups_def)
next
  case (2 c ns) then show ?case by simp
next
  case (3 c ns x xs) then show ?case by (simp add: groups_def split: if_splits)
next
  case (4 ns) then show ?case by (auto simp: groups_def split: option.splits)
next
  case (5 ns x xs)
  then show ?case
    by (auto simp: groups_def split: option.splits list.splits if_splits)
qed

lemma match_literals:
  "match_nodes (map Literal p @ ns) s =
     (if length p \<le> length s \<and> lower (take (length p) s) = lower p
      then match_nodes ns (drop (length p) s) else None)"
proof (induction p arbitrary: s)
  case Nil show ?case by (simp add: lower_def)
next
  case (Cons c p)
  show ?case
  proof (cases s)
    case Nil then show ?thesis by simp
  next
    case (Cons x xs)
    then show ?thesis using Cons.IH[of xs] by (auto simp: lower_def)
  qed
qed

lemma match_group_last: "match_nodes [Group_any] s = Some [takeWhile (\<lambda>c. c \<noteq> CHR 0x0A) s]"
  by (induction s) auto

lemma table_format_ok:
  "(p, ph) \<in> set responses \<Longrightarrow> t \<in> set ph \<Longrightarrow> length args = groups (parse p)
   \<Longrightarrow> \<exists>r. format t args = Inr r"
  unfolding responses_def
  by (auto simp: groups_def length_Suc_conv)

lemma choice_nonempty:
  "seq \<noteq> [] \<Longrightarrow> choice seq r = Inr (seq ! (r mod length seq)) \<and> seq ! (r mod length seq) \<in> set seq"
  by (simp add: choice_def)

lemma first_match_None_iff:
  "first_match rs s = None \<longleftrightarrow> (\<forall>(p, ph) \<in> set rs. re_match p s = None)"
  by (induction rs s rule: first_match.induct) (auto split: option.splits)

lemma first_match_Some_mem:
  "first_match rs s = Some (gs, ph) \<Longrightarrow> \<exists>p. (p, ph) \<in> set rs \<and> re_match p s = Some gs"
  by (induction rs s rule: first_match.induct) (auto split: option.splits)

lemma first_match_earliest:
  "i < length rs \<Longrightarrow> re_match (fst (rs ! i)) s = Some gs
   \<Longrightarrow> \<forall>j<i. re_match (fst (rs ! j)) s = None
   \<Longrightarrow> first_match rs s = Some (gs, snd (rs ! i))"
proof (induction rs arbitrary: i)
  case Nil then show ?case by simp
next
  case (Cons a rs)
  obtain p ph where a: "a = (p, ph)" by (cases a)
  show ?case
  proof (cases i)
    case 0
    with Cons.prems a show ?thesis by simp
  next
    case (Suc k)
    from Cons.prems(3) Suc have p0: "re_match p s = None" using a by auto
    have "\<forall>j<k. re_match (fst (rs ! j)) s = None"
    proof (intro allI impI)
      fix j assume "j < k"
      then have "Suc j < i" using Suc by simp
      with Cons.prems(3) have "re_match (fst ((a # rs) ! Suc j)) s = None" by blast
      then show "re_match (fst (rs ! j)) s = None" by simp
    qed
    with Cons.IH[of k] Cons.prems Suc have "first_match rs s = Some (gs, snd (rs ! k))" by simp
    with p0 a Suc show ?thesis by simp
  qed
qed

lemma first_match_least:
  "k < length rs \<Longrightarrow> re_match (fst (rs ! k)) s \<noteq> None
   \<Longrightarrow> \<exists>i\<le>k. \<exists>gs. re_match (fst (rs ! i)) s = Some gs
         \<and> (\<forall>j<i. re_match (fst (rs ! j)) s = None)
         \<and> first_match rs s = Some (gs, snd (rs ! i))"
proof -
  assume k: "k < length rs" and m: "re_match (fst (rs ! k)) s \<noteq> None"
  define i where "i = (LEAST n. re_match (fst (rs ! n)) s \<noteq> None)"
  have im: "re_match (fst (rs ! i)) s \<noteq> None" unfolding i_def using m by (rule LeastI)
  have ik: "i \<le> k" unfolding i_def using m by (rule Least_le)
  have less: "\<forall>j<i. re_match (fst (rs ! j)) s = None"
    unfolding i_def using not_less_Least by blast
  from im obtain gs where gs: "re_match (fst (rs ! i)) s = Some gs" by auto
  from ik k have "i < length rs" by simp
  from first_match_earliest[OF this gs less] gs less ik show ?thesis by blast
qed

lemma respond_Some:
  "first_match responses s = Some (gs, ph) \<Longrightarrow>
   respond r s = (case choice ph r of Inl e \<Rightarrow> Inl e | Inr t \<Rightarrow> format t (map reflect gs))"
  by (simp add: respond_def)

lemma respond_None:
  "first_match responses s = None \<Longrightarrow> respond r s = Inr (default_responses ! (r mod 5))"
  by (simp add: respond_def choice_def default_responses_def)

lemma responses_phrases_nonempty: "(p, ph) \<in> set responses \<Longrightarrow> ph \<noteq> []"
  unfolding responses_def by auto

lemma respond_returns:
  "\<exists>reply. respond r s = Inr reply \<and>
     ((\<exists>gs ph t. first_match responses s = Some (gs, ph) \<and> t \<in> set ph
                 \<and> format t (map reflect gs) = Inr reply)
      \<or> (first_match responses s = None \<and> reply \<in> set default_responses))"
proof (cases "first_match responses s")
  case None
  have "default_responses ! (r mod 5) \<in> set default_responses"
    by (rule nth_mem) (simp add: default_responses_def)
  with None respond_None[OF None, of r] show ?thesis by simp
next
  case (Some a)
  obtain gs ph where a: "a = (gs, ph)" by (cases a)
  from first_match_Some_mem[OF Some[unfolded a]] obtain p
    where p: "(p, ph) \<in> set responses" and m: "re_match p s = Some gs" by blast
  from m have len: "length (map reflect gs) = groups (parse p)"
    by (simp add: re_match_def match_nodes_length)
  from responses_phrases_nonempty[OF p] have ne: "ph \<noteq> []" .
  let ?t = "ph ! (r mod length ph)"
  from choice_nonempty[OF ne, of r] have c: "choice ph r = Inr ?t" and tm: "?t \<in> set ph" by simp_all
  from table_format_ok[OF p tm len] obtain reply where f: "format ?t (map reflect gs) = Inr reply" by blast
  have "respond r s = Inr reply" using respond_Some[OF Some[unfolded a], of r] c f by simp
  with Some a tm f show ?thesis by blast
qed

lemma chat_loop_sentinel:
  "lower l \<in> set sentinels \<Longrightarrow>
   chat_loop rnd k (l # rest) =
     ([Prompt ''You: '', Print ''Eliza: Goodbye! It was nice talking to you.''], Returned)"
  by simp

lemma chat_loop_cut:
  "lower l \<in> set sentinels \<Longrightarrow>
   chat_loop rnd k (pre @ l # rest) = chat_loop rnd k (pre @ [l])
   \<and> snd (chat_loop rnd k (pre @ l # rest)) = Returned"
proof (induction pre arbitrary: k)
  case Nil then show ?case by simp
next
  case (Cons x pre)
  from respond_returns[of "rnd k" x] obtain reply where r: "respond (rnd k) x = Inr reply" by blast
  note ih = Cons.IH[OF Cons.prems, of "Suc k"]
  have a: "chat_loop rnd (Suc k) (pre @ l # rest) = chat_loop rnd (Suc k) (pre @ [l])"
    using ih by (rule conjunct1)
  have b: "snd (chat_loop rnd (Suc k) (pre @ l # rest)) = Returned"
    using ih by (rule conjunct2)
  have "chat_loop rnd k ((x # pre) @ l # rest) = chat_loop rnd k ((x # pre) @ [l])"
    using a r by simp
  moreover have "snd (chat_loop rnd k ((x # pre) @ l # rest)) = Returned"
    using b r by (simp add: split_beta)
  ultimately show ?case by (rule conjI)
qed

lemma chat_loop_outcome:
  "snd (chat_loop rnd k inputs) = Returned \<or> snd (chat_loop rnd k inputs) = Raised EOFError"
proof (induction inputs arbitrary: k)
  case Nil show ?case by simp
next
  case (Cons x xs)
  from respond_returns[of "rnd k" x] obtain reply where r: "respond (rnd k) x = Inr reply" by blast
  from Cons[of "Suc k"] r show ?case by (simp add: split_beta)
qed

lemma match_only_literals:
  "n = length p \<Longrightarrow>
   match_nodes (map Literal p) s = (if lower (take n s) = lower p then Some [] else None)"
proof -
  assume n: "n = length p"
  have "length p \<le> length s" if "lower (take (length p) s) = lower p"
  proof -
    from that have "length (lower (take (length p) s)) = length (lower p)" by simp
    then show ?thesis by (simp add: lower_def)
  qed
  then show ?thesis unfolding n using match_literals[of p "[]" s] by auto
qed

lemma re_match_yes: "re_match ''yes'' s = (if lower (take 3 s) = ''yes'' then Some [] else None)"
proof -
  have p: "parse ''yes'' = map Literal ''yes''" by simp
  have l: "lower ''yes'' = ''yes''" by (simp add: lower_def lower_char_def)
  have "re_match ''yes'' s = match_nodes (map Literal ''yes'') s" unfolding re_match_def p ..
  also have "\<dots> = (if lower (take 3 s) = lower ''yes'' then Some [] else None)"
    by (rule match_only_literals) simp
  finally show ?thesis unfolding l .
qed

lemma re_match_no: "re_match ''no'' s = (if lower (take 2 s) = ''no'' then Some [] else None)"
proof -
  have p: "parse ''no'' = map Literal ''no''" by simp
  have l: "lower ''no'' = ''no''" by (simp add: lower_def lower_char_def)
  have "re_match ''no'' s = match_nodes (map Literal ''no'') s" unfolding re_match_def p ..
  also have "\<dots> = (if lower (take 2 s) = lower ''no'' then Some [] else None)"
    by (rule match_only_literals) simp
  finally show ?thesis unfolding l .
qed

lemma mod2_cases: "(r::nat) mod 2 = 0 \<or> r mod 2 = 1"
  by arith

lemma mod3_cases: "(r::nat) mod 3 = 0 \<or> r mod 3 = 1 \<or> r mod 3 = 2"
  by arith

lemma respond_matched:
  "first_match responses s = Some (gs, ph) \<Longrightarrow> ph \<noteq> [] \<Longrightarrow>
   respond r s = format (ph ! (r mod length ph)) (map reflect gs)"
  by (simp add: respond_def choice_def)

section \<open>The rule table\<close>

text \<open>
  C1, as stated, fails: the claim is that every template has as many replacement fields
  as its pattern has capturing groups. The second template of \<^verbatim>\<open>why do you (.*)\<close> has no
  field while the pattern has one group; for the input \<^verbatim>\<open>why do you ask\<close> the group
  \<^verbatim>\<open>ask\<close> is captured and the reply \<^verbatim>\<open>What makes you ask that?\<close> is given without it.
\<close>

theorem template_fields_counterexample:
  "(''why do you (.*)'', [''Why does it concern you that I {}?'', ''What makes you ask that?''])
      \<in> set responses
   \<and> placeholders ''What makes you ask that?'' = 0
   \<and> groups (parse ''why do you (.*)'') = 1
   \<and> first_match responses ''why do you ask'' =
        Some ([''ask''], [''Why does it concern you that I {}?'', ''What makes you ask that?''])
   \<and> respond 1 ''why do you ask'' = Inr ''What makes you ask that?''"
proof -
  have a: "(''why do you (.*)'', [''Why does it concern you that I {}?'', ''What makes you ask that?''])
      \<in> set responses" by (simp add: responses_def)
  have b: "placeholders ''What makes you ask that?'' = 0" by simp
  have c: "groups (parse ''why do you (.*)'') = 1" by (simp add: groups_def)
  have d: "first_match responses ''why do you ask'' =
        Some ([''ask''], [''Why does it concern you that I {}?'', ''What makes you ask that?''])"
    by code_simp
  have e: "respond 1 ''why do you ask'' = Inr ''What makes you ask that?''" by code_simp
  from a b c d e show ?thesis by blast
qed

text \<open>
  C1, amended. For every rule of the table and every template of the rule, the number of
  replacement fields of the template equals the number of capturing groups of the pattern
  (one, or none for \<^verbatim>\<open>yes\<close> and \<^verbatim>\<open>no\<close>), with five exceptions: the templates
  \<^verbatim>\<open>What makes you ask that?\<close>, \<^verbatim>\<open>Is that the real reason?\<close>,
  \<^verbatim>\<open>What other reasons might there be?\<close>, \<^verbatim>\<open>Does that reason explain everything?\<close> and
  \<^verbatim>\<open>Why do you ask?\<close> have no field while their pattern has one group, and leave the group
  out of the reply. In every case filling the template with the reflected groups has the
  arguments it needs and does not raise.
\<close>

theorem template_fields_match:
  "(p, ph) \<in> set responses \<Longrightarrow> t \<in> set ph \<Longrightarrow>
     (if t \<in> {''What makes you ask that?'', ''Is that the real reason?'',
               ''What other reasons might there be?'', ''Does that reason explain everything?'',
               ''Why do you ask?''}
      then placeholders t = 0 \<and> groups (parse p) = 1
      else placeholders t = groups (parse p))
     \<and> groups (parse p) \<le> 1
     \<and> (\<forall>args. length args = groups (parse p) \<longrightarrow> (\<exists>reply. format t args = Inr reply))"
proof -
  assume p: "(p, ph) \<in> set responses" and t: "t \<in> set ph"
  have "list_all (\<lambda>(p, ph). list_all (\<lambda>t.
          (if t \<in> {''What makes you ask that?'', ''Is that the real reason?'',
               ''What other reasons might there be?'', ''Does that reason explain everything?'',
               ''Why do you ask?''}
           then placeholders t = 0 \<and> groups (parse p) = 1
           else placeholders t = groups (parse p))
          \<and> groups (parse p) \<le> 1) ph) responses"
    by code_simp
  with p have "list_all (\<lambda>t.
          (if t \<in> {''What makes you ask that?'', ''Is that the real reason?'',
               ''What other reasons might there be?'', ''Does that reason explain everything?'',
               ''Why do you ask?''}
           then placeholders t = 0 \<and> groups (parse p) = 1
           else placeholders t = groups (parse p))
          \<and> groups (parse p) \<le> 1) ph"
    unfolding list_all_iff by blast
  with t have "(if t \<in> {''What makes you ask that?'', ''Is that the real reason?'',
               ''What other reasons might there be?'', ''Does that reason explain everything?'',
               ''Why do you ask?''}
      then placeholders t = 0 \<and> groups (parse p) = 1
      else placeholders t = groups (parse p))
     \<and> groups (parse p) \<le> 1"
    unfolding list_all_iff by blast
  moreover have "\<forall>args. length args = groups (parse p) \<longrightarrow> (\<exists>reply. format t args = Inr reply)"
    using table_format_ok[OF p t] by blast
  ultimately show ?thesis by blast
qed

theorem template_fields_match_witness:
  "(''can you (.*)'', [''Why do you ask?'', ''Perhaps you believe I can {}?'']) \<in> set responses
   \<and> ''Why do you ask?'' \<in> set [''Why do you ask?'', ''Perhaps you believe I can {}?'']
   \<and> placeholders ''Why do you ask?'' = 0
   \<and> groups (parse ''can you (.*)'') = 1
   \<and> ''Perhaps you believe I can {}?'' \<in> set [''Why do you ask?'', ''Perhaps you believe I can {}?'']
   \<and> placeholders ''Perhaps you believe I can {}?'' = groups (parse ''can you (.*)'')
   \<and> length [''sing''] = groups (parse ''can you (.*)'')
   \<and> (\<exists>reply. format ''Why do you ask?'' [''sing''] = Inr reply)
   \<and> (\<exists>reply. format ''Perhaps you believe I can {}?'' [''sing''] = Inr reply)"
proof -
  let ?five = "{''What makes you ask that?'', ''Is that the real reason?'',
               ''What other reasons might there be?'', ''Does that reason explain everything?'',
               ''Why do you ask?''}"
  have a: "(''can you (.*)'', [''Why do you ask?'', ''Perhaps you believe I can {}?'']) \<in> set responses"
    by (simp add: responses_def)
  have b1: "''Why do you ask?'' \<in> set [''Why do you ask?'', ''Perhaps you believe I can {}?'']"
    by simp
  have b2: "''Perhaps you believe I can {}?'' \<in> set [''Why do you ask?'', ''Perhaps you believe I can {}?'']"
    by simp
  have m1: "''Why do you ask?'' \<in> ?five" by simp
  have m2: "''Perhaps you believe I can {}?'' \<notin> ?five" by simp
  have c: "length [''sing''] = groups (parse ''can you (.*)'')" by (simp add: groups_def)
  note t1 = template_fields_match[OF a b1]
  note t2 = template_fields_match[OF a b2]
  from t1 m1 have d1: "placeholders ''Why do you ask?'' = 0 \<and> groups (parse ''can you (.*)'') = 1"
    by (simp only: if_True)
  from t2 m2 have d2: "placeholders ''Perhaps you believe I can {}?'' = groups (parse ''can you (.*)'')"
    by (simp only: if_False)
  from t1 c have e1: "\<exists>reply. format ''Why do you ask?'' [''sing''] = Inr reply" by blast
  from t2 c have e2: "\<exists>reply. format ''Perhaps you believe I can {}?'' [''sing''] = Inr reply" by blast
  from a b1 b2 d1 d2 c e1 e2 show ?thesis by blast
qed

text \<open>
  C2, as stated, fails: the claim is that a line matches the rule \<^verbatim>\<open>yes\<close> only when the
  whole line is that word. The line \<^verbatim>\<open>yes please\<close> is not the word and matches, and the
  rule \<^verbatim>\<open>yes\<close> is the one that answers it.
\<close>

theorem literal_rules_counterexample:
  "re_match ''yes'' ''yes please'' = Some [] \<and> lower ''yes please'' \<noteq> ''yes''
   \<and> first_match responses ''yes please'' = Some ([], [''You seem quite sure.'', ''I understand.''])"
proof -
  have a: "re_match ''yes'' ''yes please'' = Some []" by code_simp
  have b: "lower ''yes please'' \<noteq> ''yes''" by (simp add: lower_def)
  have c: "first_match responses ''yes please'' = Some ([], [''You seem quite sure.'', ''I understand.''])"
    by code_simp
  from a b c show ?thesis by blast
qed

text \<open>
  C2, amended. A line matches the pattern \<^verbatim>\<open>yes\<close> exactly when its first three code points
  are \<^verbatim>\<open>yes\<close> in lower case, and the pattern \<^verbatim>\<open>no\<close> exactly when its first two are
  \<^verbatim>\<open>no\<close> in lower case; what follows in the line is not looked at. The line \<^verbatim>\<open>yes\<close>
  matches, in either case of the letters, and so do \<^verbatim>\<open>yes please\<close> and \<^verbatim>\<open>nobody\<close>.
\<close>

theorem literal_rules_prefix:
  "re_match ''yes'' s = (if lower (take 3 s) = ''yes'' then Some [] else None)
   \<and> re_match ''no'' s = (if lower (take 2 s) = ''no'' then Some [] else None)
   \<and> re_match ''yes'' ''yes'' = Some []
   \<and> re_match ''yes'' ''YES'' = Some []
   \<and> re_match ''yes'' ''yes please'' = Some []
   \<and> re_match ''no'' ''No'' = Some []
   \<and> re_match ''no'' ''nobody'' = Some []
   \<and> re_match ''yes'' ''ye'' = None"
proof -
  have e: "re_match ''yes'' ''yes'' = Some []" "re_match ''yes'' ''YES'' = Some []"
    "re_match ''yes'' ''yes please'' = Some []" "re_match ''no'' ''No'' = Some []"
    "re_match ''no'' ''nobody'' = Some []" "re_match ''yes'' ''ye'' = None"
    by code_simp+
  from re_match_yes re_match_no e show ?thesis by blast
qed

theorem literal_rules_prefix_witness:
  "lower (take 3 ''Yesterday'') = ''yes'' \<and> re_match ''yes'' ''Yesterday'' = Some []
   \<and> lower (take 2 ''maybe'') \<noteq> ''no'' \<and> re_match ''no'' ''maybe'' = None"
proof -
  have a: "lower (take 3 ''Yesterday'') = ''yes''" by code_simp
  have b: "lower (take 2 ''maybe'') \<noteq> ''no''" by code_simp
  from literal_rules_prefix[of "''Yesterday''"] literal_rules_prefix[of "''maybe''"] a b
  show ?thesis by simp
qed

text \<open>
  C3. The line \<^verbatim>\<open>yesterday\<close> is matched by none of the five patterns before \<^verbatim>\<open>yes\<close> and
  is matched by \<^verbatim>\<open>yes\<close>, so for every draw the reply is one of the two templates of that
  rule, and each of them is the reply for some draw.
\<close>

theorem yesterday_matches_yes:
  "re_match ''yes'' ''yesterday'' = Some []
   \<and> map (\<lambda>(p, ph). re_match p ''yesterday'') (take 5 responses) = [None, None, None, None, None]
   \<and> first_match responses ''yesterday'' = Some ([], [''You seem quite sure.'', ''I understand.''])
   \<and> respond r ''yesterday'' = Inr ([''You seem quite sure.'', ''I understand.''] ! (r mod 2))
   \<and> (respond r ''yesterday'' = Inr ''You seem quite sure.'' \<or> respond r ''yesterday'' = Inr ''I understand.'')
   \<and> respond 0 ''yesterday'' = Inr ''You seem quite sure.''
   \<and> respond 1 ''yesterday'' = Inr ''I understand.''"
proof -
  let ?ph = "[''You seem quite sure.'', ''I understand.'']"
  have a: "re_match ''yes'' ''yesterday'' = Some []" by code_simp
  have b: "map (\<lambda>(p, ph). re_match p ''yesterday'') (take 5 responses) = [None, None, None, None, None]"
    by code_simp
  have c: "first_match responses ''yesterday'' = Some ([], ?ph)"
    by code_simp
  have len: "length ?ph = 2" by simp
  have m: "respond r ''yesterday'' = format (?ph ! (r mod 2)) []"
    using respond_matched[OF c, of r] unfolding len by simp
  have d: "respond r ''yesterday'' = Inr (?ph ! (r mod 2))"
    and e: "respond r ''yesterday'' = Inr ''You seem quite sure.'' \<or> respond r ''yesterday'' = Inr ''I understand.''"
    unfolding m using mod2_cases[of r] by auto
  have g: "respond 0 ''yesterday'' = Inr ''You seem quite sure.''"
    "respond 1 ''yesterday'' = Inr ''I understand.''" by code_simp+
  from a b c d e g show ?thesis by blast
qed

section \<open>The reply of a turn\<close>

lemma responses_length: "length responses = 10"
  by (simp add: responses_def)

lemma responses_nth_nonempty: "i < length responses \<Longrightarrow> snd (responses ! i) \<noteq> []"
proof -
  assume "i < length responses"
  then have "responses ! i \<in> set responses" by (rule nth_mem)
  then have "(fst (responses ! i), snd (responses ! i)) \<in> set responses" by simp
  then show ?thesis by (rule responses_phrases_nonempty)
qed

lemma match_literals_group:
  "n = length p \<Longrightarrow>
   match_nodes (map Literal p @ [Group_any]) s =
     (if lower (take n s) = lower p then Some [takeWhile (\<lambda>c. c \<noteq> CHR 0x0A) (drop n s)] else None)"
proof -
  assume n: "n = length p"
  have "length p \<le> length s" if "lower (take (length p) s) = lower p"
  proof -
    from that have "length (lower (take (length p) s)) = length (lower p)" by simp
    then show ?thesis by (simp add: lower_def)
  qed
  then show ?thesis
    unfolding n using match_literals[of p "[Group_any]" s] by (auto simp: match_group_last)
qed

lemma re_match_feel:
  "re_match ''i feel (.*)'' s =
     (if lower (take 7 s) = ''i feel '' then Some [takeWhile (\<lambda>c. c \<noteq> CHR 0x0A) (drop 7 s)]
      else None)"
proof -
  have p: "parse ''i feel (.*)'' = map Literal ''i feel '' @ [Group_any]" by simp
  have l: "lower ''i feel '' = ''i feel ''" by (simp add: lower_def lower_char_def)
  have "re_match ''i feel (.*)'' s = match_nodes (map Literal ''i feel '' @ [Group_any]) s"
    unfolding re_match_def p ..
  also have "\<dots> = (if lower (take 7 s) = lower ''i feel ''
      then Some [takeWhile (\<lambda>c. c \<noteq> CHR 0x0A) (drop 7 s)] else None)"
    by (rule match_literals_group) simp
  finally show ?thesis unfolding l .
qed

lemma first_match_feel:
  "re_match ''i feel (.*)'' s = Some gs \<Longrightarrow>
   first_match responses s =
     Some (gs, [''Why do you feel {}?'', ''How long have you felt {}?'',
                ''Do you think feeling {} is normal?''])"
  by (simp add: responses_def)

lemma eliza_chat_cut:
  assumes "lower l \<in> set sentinels"
  shows "eliza_chat rnd (pre @ l # rest) = eliza_chat rnd (pre @ [l])
   \<and> snd (eliza_chat rnd (pre @ l # rest)) = Returned"
proof -
  note c = chat_loop_cut[OF assms, of rnd 0 pre rest]
  have a: "chat_loop rnd 0 (pre @ l # rest) = chat_loop rnd 0 (pre @ [l])"
    using c by (rule conjunct1)
  have b: "snd (chat_loop rnd 0 (pre @ l # rest)) = Returned"
    using c by (rule conjunct2)
  have "eliza_chat rnd (pre @ l # rest) = eliza_chat rnd (pre @ [l])"
    unfolding eliza_chat_def a ..
  moreover have "snd (eliza_chat rnd (pre @ l # rest)) = Returned"
    unfolding eliza_chat_def using b by (simp add: split_beta)
  ultimately show ?thesis by (rule conjI)
qed

text \<open>
  C4. The first rule that matches wins. When the pattern of rule \<open>i\<close> matches a line with
  the groups \<open>gs\<close> and no pattern before it matches, the reply is a template of rule \<open>i\<close>
  filled with the reflections of \<open>gs\<close>; and when any rule \<open>k\<close> matches, there is such a
  first rule at or before \<open>k\<close>, so no later rule has a part in the reply. The line
  \<^verbatim>\<open>why do you ask\<close> is answered from the templates of the second rule, and the line
  \<^verbatim>\<open>i want you\<close>, which the patterns \<^verbatim>\<open>i (.*) you\<close> and \<^verbatim>\<open>i want (.*)\<close> both match, from
  those of \<^verbatim>\<open>i (.*) you\<close>.
\<close>

theorem first_match_wins:
  "(i < length responses \<and> re_match (fst (responses ! i)) s = Some gs
      \<and> (\<forall>j<i. re_match (fst (responses ! j)) s = None)
     \<longrightarrow> respond r s =
           format (snd (responses ! i) ! (r mod length (snd (responses ! i)))) (map reflect gs))
   \<and> (k < length responses \<and> re_match (fst (responses ! k)) s \<noteq> None
     \<longrightarrow> (\<exists>i\<le>k. \<exists>gs. re_match (fst (responses ! i)) s = Some gs
            \<and> (\<forall>j<i. re_match (fst (responses ! j)) s = None)
            \<and> respond r s =
                format (snd (responses ! i) ! (r mod length (snd (responses ! i)))) (map reflect gs)))
   \<and> respond r ''why do you ask'' =
        Inr ([''Why does it concern you that I ask?'', ''What makes you ask that?''] ! (r mod 2))
   \<and> re_match ''i (.*) you'' ''i want you'' = Some [''want'']
   \<and> re_match ''i want (.*)'' ''i want you'' = Some [''you'']
   \<and> respond r ''i want you'' =
        Inr ([''Why do you want me?'', ''What makes you think you want me?''] ! (r mod 2))"
proof -
  have A: "respond r s =
           format (snd (responses ! i) ! (r mod length (snd (responses ! i)))) (map reflect gs)"
    if "i < length responses" "re_match (fst (responses ! i)) s = Some gs"
       "\<forall>j<i. re_match (fst (responses ! j)) s = None" for i gs
    using first_match_earliest[OF that] responses_nth_nonempty[OF that(1)]
    by (rule respond_matched)
  have B: "\<exists>i\<le>k. \<exists>gs. re_match (fst (responses ! i)) s = Some gs
            \<and> (\<forall>j<i. re_match (fst (responses ! j)) s = None)
            \<and> respond r s =
                format (snd (responses ! i) ! (r mod length (snd (responses ! i)))) (map reflect gs)"
    if k: "k < length responses" "re_match (fst (responses ! k)) s \<noteq> None"
  proof -
    from first_match_least[OF k] obtain i gs where
      i: "i \<le> k" "re_match (fst (responses ! i)) s = Some gs"
         "\<forall>j<i. re_match (fst (responses ! j)) s = None" by blast
    from i(1) k(1) have "i < length responses" by simp
    from A[OF this i(2) i(3)] i show ?thesis by blast
  qed
  let ?p2 = "[''Why does it concern you that I {}?'', ''What makes you ask that?'']"
  let ?p4 = "[''Why do you {} me?'', ''What makes you think you {} me?'']"
  have f2: "first_match responses ''why do you ask'' = Some ([''ask''], ?p2)" by code_simp
  have f4: "first_match responses ''i want you'' = Some ([''want''], ?p4)" by code_simp
  have ra: "reflect ''ask'' = ''ask''" by code_simp
  have rw: "reflect ''want'' = ''want''" by code_simp
  have l2: "length ?p2 = 2" by simp
  have l4: "length ?p4 = 2" by simp
  have m2: "respond r ''why do you ask'' = format (?p2 ! (r mod 2)) [''ask'']"
    using respond_matched[OF f2, of r] unfolding l2 by (simp add: ra)
  have m4: "respond r ''i want you'' = format (?p4 ! (r mod 2)) [''want'']"
    using respond_matched[OF f4, of r] unfolding l4 by (simp add: rw)
  have C: "respond r ''why do you ask'' =
        Inr ([''Why does it concern you that I ask?'', ''What makes you ask that?''] ! (r mod 2))"
    unfolding m2 using mod2_cases[of r] by auto
  have D: "respond r ''i want you'' =
        Inr ([''Why do you want me?'', ''What makes you think you want me?''] ! (r mod 2))"
    unfolding m4 using mod2_cases[of r] by auto
  have E: "re_match ''i (.*) you'' ''i want you'' = Some [''want'']"
     "re_match ''i want (.*)'' ''i want you'' = Some [''you'']" by code_simp+
  from A B C D E show ?thesis by blast
qed

theorem first_match_wins_witness:
  "3 < length responses \<and> fst (responses ! 3) = ''i (.*) you''
   \<and> re_match ''i (.*) you'' ''i want you'' = Some [''want'']
   \<and> map (\<lambda>j. re_match (fst (responses ! j)) ''i want you'') [0, 1, 2] = [None, None, None]
   \<and> respond 0 ''i want you'' = format ''Why do you {} me?'' [''want'']
   \<and> respond 0 ''i want you'' = Inr ''Why do you want me?''
   \<and> 8 < length responses \<and> fst (responses ! 8) = ''i want (.*)''
   \<and> re_match ''i want (.*)'' ''i want you'' = Some [''you'']
   \<and> (\<exists>i\<le>8. \<exists>gs. re_match (fst (responses ! i)) ''i want you'' = Some gs
         \<and> respond 0 ''i want you'' =
             format (snd (responses ! i) ! (0 mod length (snd (responses ! i)))) (map reflect gs))"
proof -
  have a: "3 < length responses" "8 < length responses" by (simp_all add: responses_def)
  have n3: "fst (responses ! 3) = ''i (.*) you''" "fst (responses ! 8) = ''i want (.*)''"
    by (simp_all add: responses_def)
  have s3: "snd (responses ! 3) = [''Why do you {} me?'', ''What makes you think you {} me?'']"
    by (simp add: responses_def)
  have b: "re_match (fst (responses ! 3)) ''i want you'' = Some [''want'']" by code_simp
  have c0: "map (\<lambda>j. re_match (fst (responses ! j)) ''i want you'') [0, 1, 2] = [None, None, None]"
    by code_simp
  have c: "\<forall>j<3. re_match (fst (responses ! j)) ''i want you'' = None"
  proof (intro allI impI)
    fix j :: nat assume "j < 3"
    then have "j = 0 \<or> j = 1 \<or> j = 2" by arith
    with c0 show "re_match (fst (responses ! j)) ''i want you'' = None" by auto
  qed
  have e: "re_match (fst (responses ! 8)) ''i want you'' = Some [''you'']" by code_simp
  then have e': "re_match (fst (responses ! 8)) ''i want you'' \<noteq> None" by simp
  have rw: "reflect ''want'' = ''want''" by code_simp
  note t = first_match_wins[of 3 "''i want you''" "[''want'']" 0 8]
  from t a b c
  have "respond 0 ''i want you'' =
     format (snd (responses ! 3) ! (0 mod length (snd (responses ! 3)))) (map reflect [''want''])"
    by blast
  then have d: "respond 0 ''i want you'' = format ''Why do you {} me?'' [''want'']"
    unfolding s3 by (simp add: rw)
  then have f: "respond 0 ''i want you'' = Inr ''Why do you want me?''" by simp
  from t a e'
  have g: "\<exists>i\<le>8. \<exists>gs. re_match (fst (responses ! i)) ''i want you'' = Some gs
         \<and> respond 0 ''i want you'' =
             format (snd (responses ! i) ! (0 mod length (snd (responses ! i)))) (map reflect gs)"
    by blast
  from a n3 b[unfolded n3] c0 e[unfolded n3] d f g show ?thesis by blast
qed

text \<open>
  C5. For every line that the pattern \<^verbatim>\<open>i feel (.*)\<close> matches with the group \<open>X\<close>, the reply
  is one of the three templates of the first rule with the reflection of \<open>X\<close> in the place
  of the field, the one that the draw selects. The pattern matches exactly the lines whose
  first seven code points are \<^verbatim>\<open>i feel \<close> in lower case, and \<open>X\<close> is the rest of the line up
  to its first line feed: the whole rest for a line without a line feed. For
  \<^verbatim>\<open>I feel sad\<close> the replies are \<^verbatim>\<open>Why do you feel sad?\<close>, \<^verbatim>\<open>How long have you felt sad?\<close>
  and \<^verbatim>\<open>Do you think feeling sad is normal?\<close>.
\<close>

theorem i_feel_replies:
  "(re_match ''i feel (.*)'' s = Some [X] \<longrightarrow>
      respond r s =
        Inr ([''Why do you feel '' @ reflect X @ ''?'',
              ''How long have you felt '' @ reflect X @ ''?'',
              ''Do you think feeling '' @ reflect X @ '' is normal?''] ! (r mod 3)))
   \<and> re_match ''i feel (.*)'' s =
        (if lower (take 7 s) = ''i feel ''
         then Some [takeWhile (\<lambda>c. c \<noteq> CHR 0x0A) (drop 7 s)] else None)
   \<and> (lower (take 7 s) = ''i feel '' \<and> CHR 0x0A \<notin> set s \<longrightarrow>
      respond r s =
        Inr ([''Why do you feel '' @ reflect (drop 7 s) @ ''?'',
              ''How long have you felt '' @ reflect (drop 7 s) @ ''?'',
              ''Do you think feeling '' @ reflect (drop 7 s) @ '' is normal?''] ! (r mod 3)))
   \<and> respond r ''I feel sad'' =
        Inr ([''Why do you feel sad?'', ''How long have you felt sad?'',
              ''Do you think feeling sad is normal?''] ! (r mod 3))"
proof -
  let ?ph = "[''Why do you feel {}?'', ''How long have you felt {}?'',
              ''Do you think feeling {} is normal?'']"
  have len: "length ?ph = 3" by simp
  have A: "respond r s =
        Inr ([''Why do you feel '' @ a @ ''?'',
              ''How long have you felt '' @ a @ ''?'',
              ''Do you think feeling '' @ a @ '' is normal?''] ! (r mod 3))"
    if m: "re_match ''i feel (.*)'' s = Some [X]" and a: "a = reflect X" for s X a
  proof -
    have "respond r s = format (?ph ! (r mod 3)) [a]"
      using respond_matched[OF first_match_feel[OF m], of r] unfolding len a by simp
    then show ?thesis using mod3_cases[of r] by auto
  qed
  have m: "re_match ''i feel (.*)'' ''I feel sad'' = Some [''sad'']" by code_simp
  have rs: "''sad'' = reflect ''sad''" by code_simp
  from A[OF m rs] have C: "respond r ''I feel sad'' =
        Inr ([''Why do you feel sad?'', ''How long have you felt sad?'',
              ''Do you think feeling sad is normal?''] ! (r mod 3))" by simp
  have D: "respond r s =
        Inr ([''Why do you feel '' @ reflect (drop 7 s) @ ''?'',
              ''How long have you felt '' @ reflect (drop 7 s) @ ''?'',
              ''Do you think feeling '' @ reflect (drop 7 s) @ '' is normal?''] ! (r mod 3))"
    if p: "lower (take 7 s) = ''i feel ''" and nl: "CHR 0x0A \<notin> set s"
  proof -
    have "\<forall>c \<in> set (drop 7 s). c \<noteq> CHR 0x0A"
      using nl set_drop_subset[of 7 s] by blast
    then have "takeWhile (\<lambda>c. c \<noteq> CHR 0x0A) (drop 7 s) = drop 7 s"
      by (simp only: takeWhile_eq_all_conv)
    with p have "re_match ''i feel (.*)'' s = Some [drop 7 s]"
      by (simp only: re_match_feel refl if_True)
    from A[OF this refl] show ?thesis .
  qed
  from A[OF _ refl] re_match_feel D C show ?thesis by blast
qed

theorem i_feel_replies_witness:
  "re_match ''i feel (.*)'' ''I FEEL my age'' = Some [''my age'']
   \<and> reflect ''my age'' = ''your age''
   \<and> respond 1 ''I FEEL my age'' = Inr ''How long have you felt your age?''
   \<and> lower (take 7 ''I FEEL my age'') = ''i feel ''
   \<and> CHR 0x0A \<notin> set ''I FEEL my age''
   \<and> drop 7 ''I FEEL my age'' = ''my age''
   \<and> respond 2 ''I FEEL my age'' = Inr ''Do you think feeling your age is normal?''"
proof -
  have a: "re_match ''i feel (.*)'' ''I FEEL my age'' = Some [''my age'']" by code_simp
  have b: "reflect ''my age'' = ''your age''" by code_simp
  have p: "lower (take 7 ''I FEEL my age'') = ''i feel ''" by code_simp
  have q: "CHR 0x0A \<notin> set ''I FEEL my age''" by simp
  have dr: "drop 7 ''I FEEL my age'' = ''my age''" by simp
  from i_feel_replies[of "''I FEEL my age''" "''my age''" 1] a
  have "respond 1 ''I FEEL my age'' =
        Inr ([''Why do you feel '' @ reflect ''my age'' @ ''?'',
              ''How long have you felt '' @ reflect ''my age'' @ ''?'',
              ''Do you think feeling '' @ reflect ''my age'' @ '' is normal?''] ! (1 mod 3))"
    by blast
  then have c: "respond 1 ''I FEEL my age'' = Inr ''How long have you felt your age?''"
    unfolding b by simp
  from i_feel_replies[of "''I FEEL my age''" "''my age''" 2] p q
  have "respond 2 ''I FEEL my age'' =
        Inr ([''Why do you feel '' @ reflect (drop 7 ''I FEEL my age'') @ ''?'',
              ''How long have you felt '' @ reflect (drop 7 ''I FEEL my age'') @ ''?'',
              ''Do you think feeling '' @ reflect (drop 7 ''I FEEL my age'') @ '' is normal?''] ! (2 mod 3))"
    by blast
  then have d: "respond 2 ''I FEEL my age'' = Inr ''Do you think feeling your age is normal?''"
    unfolding dr b by simp
  from a b c p q dr d show ?thesis by blast
qed

text \<open>
  C7. A line that no pattern of the table matches (which is when the loop over the rules
  finds nothing) is answered with one of the five strings of \<^verbatim>\<open>default_responses\<close>, as it
  stands in the list: nothing is filled in and nothing is reflected. \<^verbatim>\<open>qwerty zzz\<close> is
  such a line.
\<close>

theorem unmatched_gets_fallback:
  "(first_match responses s = None \<longleftrightarrow> (\<forall>(p, ph) \<in> set responses. re_match p s = None))
   \<and> (first_match responses s = None \<longrightarrow>
        respond r s = Inr (default_responses ! (r mod 5))
        \<and> respond r s \<in> {Inr ''Tell me more.'', Inr ''Why do you say that?'',
                          Inr ''How does that make you feel?'', Inr ''Can you elaborate?'',
                          Inr ''That is very interesting.''})
   \<and> first_match responses ''qwerty zzz'' = None"
proof -
  have A: "respond r s = Inr (default_responses ! (r mod 5))
        \<and> respond r s \<in> {Inr ''Tell me more.'', Inr ''Why do you say that?'',
                          Inr ''How does that make you feel?'', Inr ''Can you elaborate?'',
                          Inr ''That is very interesting.''}"
    if n: "first_match responses s = None"
  proof -
    have "r mod 5 = 0 \<or> r mod 5 = 1 \<or> r mod 5 = 2 \<or> r mod 5 = 3 \<or> r mod 5 = 4" by arith
    then have "default_responses ! (r mod 5) \<in> {''Tell me more.'', ''Why do you say that?'',
        ''How does that make you feel?'', ''Can you elaborate?'', ''That is very interesting.''}"
      by (auto simp: default_responses_def)
    with respond_None[OF n, of r] show ?thesis by auto
  qed
  have B: "first_match responses ''qwerty zzz'' = None" by code_simp
  from A B first_match_None_iff[of responses s] show ?thesis by blast
qed

theorem unmatched_gets_fallback_witness:
  "first_match responses ''qwerty zzz'' = None
   \<and> respond 3 ''qwerty zzz'' = Inr ''Can you elaborate?''"
proof -
  have a: "first_match responses ''qwerty zzz'' = None" by code_simp
  from unmatched_gets_fallback[of "''qwerty zzz''" 3] a
  have "respond 3 ''qwerty zzz'' = Inr (default_responses ! (3 mod 5))" by blast
  then have "respond 3 ''qwerty zzz'' = Inr ''Can you elaborate?''"
    by (simp add: default_responses_def)
  with a show ?thesis by blast
qed

text \<open>
  C8. Every line has a reply: for every draw and every string, the empty line and lines
  of punctuation among them, the turn returns a string, either a template of the first
  matching rule filled with the reflected groups or one of the default responses; it
  never raises. So the session ends only by a sentinel or at the end of the input.
\<close>

theorem respond_total:
  "(\<exists>reply. respond r s = Inr reply \<and>
     ((\<exists>gs ph t. first_match responses s = Some (gs, ph) \<and> t \<in> set ph
                 \<and> format t (map reflect gs) = Inr reply)
      \<or> (first_match responses s = None \<and> reply \<in> set default_responses)))
   \<and> (snd (chat_loop rnd k inputs) = Returned \<or> snd (chat_loop rnd k inputs) = Raised EOFError)
   \<and> respond 0 '''' = Inr ''Tell me more.''
   \<and> respond 1 ''?!...'' = Inr ''Why do you say that?''"
proof -
  have a: "respond 0 '''' = Inr ''Tell me more.''"
    "respond 1 ''?!...'' = Inr ''Why do you say that?''" by code_simp+
  from respond_returns[of r s] chat_loop_outcome[of rnd k inputs] a show ?thesis by blast
qed

text \<open>
  C9. A line whose lower case is \<^verbatim>\<open>bye\<close>, \<^verbatim>\<open>exit\<close> or \<^verbatim>\<open>quit\<close> ends the session: the turn
  writes the farewell and nothing else, the loop returns, and the lines behind it are
  never read, so no reply from a rule or from the default responses is written for it.
\<close>

theorem sentinel_ends_session:
  "(lower l \<in> set sentinels \<longleftrightarrow> lower l = ''bye'' \<or> lower l = ''exit'' \<or> lower l = ''quit'')
   \<and> (lower l \<in> set sentinels \<longrightarrow>
        chat_loop rnd k (l # rest) =
          ([Prompt ''You: '', Print ''Eliza: Goodbye! It was nice talking to you.''], Returned)
        \<and> eliza_chat rnd (pre @ l # rest) = eliza_chat rnd (pre @ [l])
        \<and> snd (eliza_chat rnd (pre @ l # rest)) = Returned)"
proof -
  have a: "lower l \<in> set sentinels \<longleftrightarrow> lower l = ''bye'' \<or> lower l = ''exit'' \<or> lower l = ''quit''"
    by (simp add: sentinels_def)
  from a chat_loop_sentinel[of l rnd k rest] eliza_chat_cut[of l rnd pre rest]
  show ?thesis by blast
qed

theorem sentinel_ends_session_witness:
  "lower ''ByE'' \<in> set sentinels
   \<and> chat_loop (\<lambda>n. n) 0 [''ByE'', ''i feel sad''] =
        ([Prompt ''You: '', Print ''Eliza: Goodbye! It was nice talking to you.''], Returned)
   \<and> eliza_chat (\<lambda>n. n) ([''hello''] @ ''ByE'' # [''i feel sad'']) =
       eliza_chat (\<lambda>n. n) ([''hello''] @ [''ByE''])
   \<and> snd (eliza_chat (\<lambda>n. n) ([''hello''] @ ''ByE'' # [''i feel sad''])) = Returned"
proof -
  have a: "lower ''ByE'' \<in> set sentinels" by code_simp
  from sentinel_ends_session[of "''ByE''" "\<lambda>n. n" 0 "[''i feel sad'']" "[''hello'']"] a
  show ?thesis by blast
qed

end
